theory Spec2Isabelle
  imports Complex_Main
begin

section \<open>Similarity matcher (services/face\_service.py)\<close>

text \<open>
  Embeddings are Python lists of floats; they are modelled as lists of reals, so the
  development speaks about the arithmetic the code writes down, not about IEEE rounding.
  A stored embedding is the dict \<open>{"embedding": ..., "photo_id": ...}\<close> handed to
  \<open>find_matches\<close>, a match is the dict \<open>{"photo_id": ..., "similarity": ...}\<close> it
  appends.
\<close>

record stored_embedding =
  embedding :: "real list"
  photo_id :: string

record match =
  match_photo_id :: string
  similarity :: real

text \<open>
  \<open>ValueError\<close> is what \<open>np.dot\<close> raises for two vectors of different length.
  Dividing by a zero float does not raise in numpy, it yields \<open>nan\<close> or \<open>inf\<close>; the
  model records that outcome as the fault \<open>FloatingPointError\<close> (what numpy raises under
  \<open>np.seterr(all='raise')\<close>), so that its absence is a statement about \<open>find_matches\<close>.
\<close>

datatype error = ValueError | FloatingPointError

definition np_dot :: "real list \<Rightarrow> real list \<Rightarrow> error + real" where
  "np_dot a b =
     (if length a = length b then Inr (sum_list (map2 (*) a b)) else Inl ValueError)"

definition np_norm :: "real list \<Rightarrow> real" where
  "np_norm v = sqrt (sum_list (map (\<lambda>x. x * x) v))"

definition np_divide :: "real \<Rightarrow> real \<Rightarrow> error + real" where
  "np_divide a b = (if b = 0 then Inl FloatingPointError else Inr (a / b))"

text \<open>
  Python's \<open>round(x, 4)\<close>: the nearest multiple of \<open>0.0001\<close>, an exact tie going to the
  even neighbour.
\<close>

definition round_half_even :: "real \<Rightarrow> int" where
  "round_half_even y =
     (let f = \<lfloor>y\<rfloor>; d = y - of_int f
      in if d < 1 / 2 then f
         else if 1 / 2 < d then f + 1
         else if even f then f else f + 1)"

definition py_round4 :: "real \<Rightarrow> real" where
  "py_round4 x = of_int (round_half_even (x * 10000)) / 10000"

text \<open>
  The loop of \<open>find_matches\<close> over \<open>stored_embeddings\<close>, with its two accumulators
  \<open>matches\<close> and \<open>seen_photos\<close>. A stored vector of norm zero is skipped before the
  dot product is taken.
\<close>

fun match_loop ::
  "real list \<Rightarrow> real \<Rightarrow> real \<Rightarrow> stored_embedding list \<Rightarrow> match list \<Rightarrow> string set
     \<Rightarrow> error + match list" where
  "match_loop selfie_vec selfie_norm threshold [] matches seen_photos = Inr matches"
| "match_loop selfie_vec selfie_norm threshold (stored # rest) matches seen_photos =
     (let stored_vec = embedding stored; stored_norm = np_norm stored_vec
      in if stored_norm = 0
         then match_loop selfie_vec selfie_norm threshold rest matches seen_photos
         else
           (case np_dot selfie_vec stored_vec of
              Inl e \<Rightarrow> Inl e
            | Inr d \<Rightarrow>
                (case np_divide d (selfie_norm * stored_norm) of
                   Inl e \<Rightarrow> Inl e
                 | Inr cosine_sim \<Rightarrow>
                     if threshold \<le> cosine_sim \<and> photo_id stored \<notin> seen_photos
                     then match_loop selfie_vec selfie_norm threshold rest
                            (matches @ [\<lparr>match_photo_id = photo_id stored,
                                         similarity = py_round4 cosine_sim\<rparr>])
                            (insert (photo_id stored) seen_photos)
                     else match_loop selfie_vec selfie_norm threshold rest
                            matches seen_photos)))"

text \<open>
  \<open>matches.sort(key=..., reverse=True)\<close> is a stable sort into descending order of the
  key; a stable ascending sort on the negated key is the same permutation.
\<close>

definition sort_descending :: "match list \<Rightarrow> match list" where
  "sort_descending matches = sort_key (\<lambda>x. - similarity x) matches"

text \<open>
  \<open>find_matches\<close>. The first argument is the configuration value
  \<open>SIMILARITY_THRESHOLD\<close> (config.py reads it from the environment, default 0.40),
  used when the caller passes no threshold.
\<close>

definition find_matches ::
  "real \<Rightarrow> real list \<Rightarrow> stored_embedding list \<Rightarrow> real option \<Rightarrow> error + match list" where
  "find_matches SIMILARITY_THRESHOLD selfie_embedding stored_embeddings threshold =
     (let threshold = (case threshold of None \<Rightarrow> SIMILARITY_THRESHOLD | Some t \<Rightarrow> t);
          selfie_vec = selfie_embedding;
          selfie_norm = np_norm selfie_vec
      in if selfie_norm = 0 then Inr []
         else
           (case match_loop selfie_vec selfie_norm threshold stored_embeddings [] {} of
              Inl e \<Rightarrow> Inl e
            | Inr matches \<Rightarrow> Inr (sort_descending matches)))"

text \<open>
  The value line 92 of face\_service.py computes for a stored vector that reaches it,
  and the threshold in force after the \<open>None\<close> default has been resolved. Both are
  used to state properties only.
\<close>

definition cosine_similarity :: "real list \<Rightarrow> real list \<Rightarrow> real" where
  "cosine_similarity a b = sum_list (map2 (*) a b) / (np_norm a * np_norm b)"

definition effective_threshold :: "real \<Rightarrow> real option \<Rightarrow> real" where
  "effective_threshold SIMILARITY_THRESHOLD threshold =
     (case threshold of None \<Rightarrow> SIMILARITY_THRESHOLD | Some t \<Rightarrow> t)"


section \<open>Embedding extractor (services/face\_service.py)\<close>

text \<open>
  \<open>DeepFace.represent\<close> is an external library call. Its outcome is a parameter of the
  model: it either raises (with a message) or returns a list of result dicts. A result
  dict may lack either key; \<open>facial_area\<close> is a dict from coordinate names to integers.
\<close>

record represent_result =
  res_embedding :: "real list option"
  res_facial_area :: "(string \<rightharpoonup> int) option"

datatype represent_outcome = Raised string | Returned "represent_result list"

record face =
  face_embedding :: "real list"
  location :: "int list"

definition area_get :: "(string \<rightharpoonup> int) \<Rightarrow> string \<Rightarrow> int" where
  "area_get face_area k = (case face_area k of None \<Rightarrow> 0 | Some v \<Rightarrow> v)"

fun encode_results :: "represent_result list \<Rightarrow> face list" where
  "encode_results [] = []"
| "encode_results (result # results) =
     (let embedding = (case res_embedding result of None \<Rightarrow> [] | Some e \<Rightarrow> e);
          face_area = (case res_facial_area result of None \<Rightarrow> Map.empty | Some a \<Rightarrow> a)
      in if embedding \<noteq> [] \<and> 0 < length embedding
         then \<lparr>face_embedding = embedding,
               location = [area_get face_area ''x'', area_get face_area ''y'',
                           area_get face_area ''w'', area_get face_area ''h'']\<rparr>
              # encode_results results
         else encode_results results)"

text \<open>
  \<open>detect_and_encode\<close> wraps the whole body in \<open>try ... except Exception\<close> and returns
  the empty list from the handler, so it has no error result of its own.
\<close>

definition detect_and_encode :: "represent_outcome \<Rightarrow> face list" where
  "detect_and_encode outcome =
     (case outcome of
        Returned results \<Rightarrow> encode_results results
      | Raised e \<Rightarrow> [])"

definition encode_selfie :: "represent_outcome \<Rightarrow> real list option" where
  "encode_selfie outcome =
     (let faces = detect_and_encode outcome
      in case faces of [] \<Rightarrow> None | f # _ \<Rightarrow> Some (face_embedding f))"

section \<open>Progress tracker (routes/progress.py)\<close>

text \<open>
  \<open>_progress_store\<close> is a \<open>defaultdict\<close> from event id to a dict with the five keys
  below, all zero for an event not seen before. Every caller passes one of the key
  literals, so the keys are a datatype. The notification of connected clients does not
  change the store and is left out.
\<close>

datatype counter = uploaded | processing | completed | failed | total

type_synonym progress_store = "string \<Rightarrow> counter \<Rightarrow> int"

definition empty_progress_store :: progress_store where
  "empty_progress_store = (\<lambda>event_id c. 0)"

definition update_progress :: "string \<Rightarrow> counter \<Rightarrow> int \<Rightarrow> progress_store \<Rightarrow> progress_store" where
  "update_progress event_id status count store =
     store (event_id := (store event_id) (status := store event_id status + count))"

definition get_progress :: "progress_store \<Rightarrow> string \<Rightarrow> counter \<Rightarrow> int" where
  "get_progress store event_id = store event_id"

definition reset_progress :: "string \<Rightarrow> progress_store \<Rightarrow> progress_store" where
  "reset_progress event_id store = store (event_id := (\<lambda>c. 0))"

section \<open>Photo records and the ingestion pipeline\<close>

text \<open>
  A row of the \<open>photos\<close> table, with the columns the pipeline reads or writes. The
  status column is text. \<open>retry_count\<close> is read by the retry sweep with
  \<open>photo.get("retry_count", 0)\<close>; \<open>None\<close> stands for a row without that key.
\<close>

record photo =
  row_id :: string
  event_id :: string
  filename :: string
  status :: string
  face_count :: int
  processing_time_ms :: "int option"
  retry_count :: "int option"

record saved_embedding =
  se_photo_id :: string
  se_event_id :: string
  se_embedding :: "real list"
  se_face_location :: "int list"

record system =
  photos :: "string \<rightharpoonup> photo"
  face_embeddings :: "saved_embedding list"
  progress :: progress_store

text \<open>
  The writes a request or a job performs, in program order. A function of the pipeline
  is modelled by the list of writes it issues; \<open>run\<close> applies them to the system and
  \<open>trace\<close> keeps every intermediate system, so that what holds during processing can
  be stated. Database reads and writes are taken to succeed; \<open>save_face_embedding\<close>
  is the one store call allowed to raise (see \<open>job_env\<close>).
\<close>

datatype effect =
    ResetProgress string
  | UpdateProgress string counter
  | SetTotal string int
  | CreatePhoto photo
  | SubmitPhoto string string
  | UpdatePhotoStatus string string int "int option"
  | SaveFaceEmbedding saved_embedding
  | Unlink

text \<open>
  \<open>update_photo_status\<close> as in database\_sqlite.py: status and face count are
  overwritten, the processing time only by a value that is not \<open>None\<close>
  (\<open>COALESCE\<close>); an unknown id updates no row. The event's \<open>processed_count\<close> is not
  part of the model.
\<close>

definition update_photo_status ::
  "string \<Rightarrow> string \<Rightarrow> int \<Rightarrow> int option \<Rightarrow> (string \<rightharpoonup> photo) \<Rightarrow> (string \<rightharpoonup> photo)" where
  "update_photo_status pid st fc ms tbl =
     (case tbl pid of
        None \<Rightarrow> tbl
      | Some p \<Rightarrow>
          tbl (pid \<mapsto> p \<lparr>status := st, face_count := fc,
                            processing_time_ms :=
                              (case ms of None \<Rightarrow> processing_time_ms p | Some t \<Rightarrow> Some t)\<rparr>))"

fun apply_effect :: "effect \<Rightarrow> system \<Rightarrow> system" where
  "apply_effect (ResetProgress e) s = s \<lparr>progress := reset_progress e (progress s)\<rparr>"
| "apply_effect (UpdateProgress e c) s = s \<lparr>progress := update_progress e c 1 (progress s)\<rparr>"
| "apply_effect (SetTotal e n) s =
     s \<lparr>progress := (progress s) (e := (progress s e) (total := n))\<rparr>"
| "apply_effect (CreatePhoto p) s = s \<lparr>photos := (photos s) (row_id p \<mapsto> p)\<rparr>"
| "apply_effect (SubmitPhoto pid e) s = s"
| "apply_effect (UpdatePhotoStatus pid st fc ms) s =
     s \<lparr>photos := update_photo_status pid st fc ms (photos s)\<rparr>"
| "apply_effect (SaveFaceEmbedding emb) s = s \<lparr>face_embeddings := face_embeddings s @ [emb]\<rparr>"
| "apply_effect Unlink s = s"

fun run :: "effect list \<Rightarrow> system \<Rightarrow> system" where
  "run [] s = s"
| "run (e # es) s = run es (apply_effect e s)"

fun trace :: "effect list \<Rightarrow> system \<Rightarrow> system list" where
  "trace [] s = [s]"
| "trace (e # es) s = s # trace es (apply_effect e s)"

definition status_history :: "string \<Rightarrow> effect list \<Rightarrow> system \<Rightarrow> string option list" where
  "status_history pid es s = map (\<lambda>s'. map_option status (photos s' pid)) (trace es s)"

text \<open>
  What one job meets outside the program: whether \<open>resolve_image_for_processing\<close>
  raises (\<open>None\<close>) or returns, with its \<open>should_cleanup\<close> flag; whether the image path
  exists; what DeepFace does; the index of the first face whose \<open>save_face_embedding\<close>
  raises, if any; and the elapsed time the job measures.
\<close>

record job_env =
  resolve_image :: "bool option"
  image_exists :: bool
  represent :: represent_outcome
  save_raises_at :: "nat option"
  elapsed_ms :: int

definition save_effect :: "string \<Rightarrow> string \<Rightarrow> face \<Rightarrow> effect" where
  "save_effect pid eid f =
     SaveFaceEmbedding \<lparr>se_photo_id = pid, se_event_id = eid,
                        se_embedding = face_embedding f, se_face_location = location f\<rparr>"

definition cleanup :: "bool \<Rightarrow> effect list" where
  "cleanup should_cleanup = (if should_cleanup then [Unlink] else [])"

text \<open>
  The body of \<open>process_photo\<close> from the first \<open>update_progress\<close> on. The two executors
  share it word for word except for what follows the \<open>done\<close> write (\<open>on_done\<close>): the
  thread-pool worker counts the photo as completed, the Celery task returns its result
  dict. \<open>except_handler\<close> is the outer \<open>except Exception\<close> block.
\<close>

definition except_handler :: "string \<Rightarrow> string \<Rightarrow> effect list" where
  "except_handler pid eid = [UpdatePhotoStatus pid ''error'' 0 None, UpdateProgress eid failed]"

definition process_body :: "effect list \<Rightarrow> job_env \<Rightarrow> string \<Rightarrow> string \<Rightarrow> effect list" where
  "process_body on_done env pid eid =
     UpdateProgress eid processing #
     (case resolve_image env of
        None \<Rightarrow> except_handler pid eid
      | Some should_cleanup \<Rightarrow>
          if \<not> image_exists env
          then [UpdatePhotoStatus pid ''error'' 0 None, UpdateProgress eid failed]
               @ cleanup should_cleanup
          else
            (let faces = detect_and_encode (represent env)
             in case save_raises_at env of
                  Some k \<Rightarrow>
                    if k < length faces
                    then map (save_effect pid eid) (take k faces)
                         @ cleanup should_cleanup @ except_handler pid eid
                    else map (save_effect pid eid) faces
                         @ [UpdatePhotoStatus pid ''done'' (int (length faces))
                              (Some (elapsed_ms env))]
                         @ on_done @ cleanup should_cleanup
                | None \<Rightarrow>
                    map (save_effect pid eid) faces
                    @ [UpdatePhotoStatus pid ''done'' (int (length faces))
                         (Some (elapsed_ms env))]
                    @ on_done @ cleanup should_cleanup))"

text \<open>services/worker.py, \<open>process_photo\<close>: a photo that is not found is logged and left.\<close>

definition worker_process_photo :: "job_env \<Rightarrow> system \<Rightarrow> string \<Rightarrow> string \<Rightarrow> effect list" where
  "worker_process_photo env s pid eid =
     (case photos s pid of
        None \<Rightarrow> []
      | Some p \<Rightarrow> process_body [UpdateProgress eid completed] env pid eid)"

text \<open>tasks.py, \<open>process_photo\<close>: the task function itself.\<close>

definition tasks_process_photo :: "job_env \<Rightarrow> system \<Rightarrow> string \<Rightarrow> string \<Rightarrow> effect list" where
  "tasks_process_photo env s pid eid =
     (case photos s pid of
        None \<Rightarrow> []
      | Some p \<Rightarrow> process_body [] env pid eid)"

text \<open>
  \<open>CallbackTask.on_success\<close>. Celery calls it whenever the task function returns, with
  the positional and keyword arguments of the call; an empty string is falsy.
\<close>

definition on_success :: "string list \<Rightarrow> (string \<rightharpoonup> string) \<Rightarrow> effect list" where
  "on_success args kwargs =
     (let from_args = (if 1 < length args then Some (args ! 1) else None);
          evt = (case kwargs ''event_id'' of
                        None \<Rightarrow> from_args
                      | Some e \<Rightarrow> if e \<noteq> [] then Some e else from_args)
      in case evt of
           None \<Rightarrow> []
         | Some e \<Rightarrow> if e \<noteq> [] then [UpdateProgress e completed] else [])"

text \<open>
  One execution of the Celery task as every caller submits it,
  \<open>process_photo.apply_async(args=[photo_id, event_id])\<close>. The task function catches
  every exception and returns a dict on each path, so the run is always a success for
  Celery and \<open>on_success\<close> follows it.
\<close>

definition celery_process_photo :: "job_env \<Rightarrow> system \<Rightarrow> string \<Rightarrow> string \<Rightarrow> effect list" where
  "celery_process_photo env s pid eid =
     tasks_process_photo env s pid eid @ on_success [pid, eid] Map.empty"

text \<open>
  services/task\_queue.py, \<open>submit_photo\<close>: the executor a submitted photo runs on is
  chosen by the configuration flag \<open>USE_REDIS\<close>.
\<close>

definition executor :: "bool \<Rightarrow> job_env \<Rightarrow> system \<Rightarrow> string \<Rightarrow> string \<Rightarrow> effect list" where
  "executor USE_REDIS = (if USE_REDIS then celery_process_photo else worker_process_photo)"

section \<open>Upload route (routes/photos.py)\<close>

text \<open>
  One image offered for upload: the verdict of \<open>validate_image\<close>, the id
  \<open>create_photo\<close> draws for it and the file name \<open>save_image\<close> stores it under. A ZIP
  entry is skipped when it is a directory, a \<open>__MACOSX\<close> entry or has an extension that
  is not allowed. A file whose name ends in \<open>.zip\<close> but cannot be opened raises
  \<open>BadZipFile\<close>.
\<close>

record image_upload =
  valid :: bool
  new_id :: string
  stored_name :: string

datatype zip_entry = ZipEntry bool image_upload

datatype upload_file = RegularFile image_upload | ZipArchive "zip_entry list" | BadZipFile

datatype http_result = HTTP_404 | HTTP_402 | HTTP_200 nat

definition create_photo :: "string \<Rightarrow> image_upload \<Rightarrow> photo" where
  "create_photo eid img =
     \<lparr>row_id = new_id img, event_id = eid, filename = stored_name img,
      status = ''pending'', face_count = 0, processing_time_ms = None, retry_count = None\<rparr>"

text \<open>
  \<open>_process_image_upload\<close> followed by the caller's \<open>uploaded_photos.append\<close> and
  \<open>update_progress(event_id, "uploaded")\<close>; the result is the writes and the photo, if one
  was created.
\<close>

definition process_image_upload :: "string \<Rightarrow> image_upload \<Rightarrow> effect list \<times> photo option" where
  "process_image_upload eid img =
     (if \<not> valid img then ([], None)
      else (let p = create_photo eid img
            in ([CreatePhoto p, SubmitPhoto (row_id p) eid, UpdateProgress eid uploaded], Some p)))"

definition would_exceed_limit :: "nat \<Rightarrow> nat \<Rightarrow> photo list \<Rightarrow> bool" where
  "would_exceed_limit FREE_TIER_PHOTO_LIMIT photo_count uploaded_photos =
     (FREE_TIER_PHOTO_LIMIT \<le> photo_count + length uploaded_photos)"

text \<open>
  The loop over the entries of one ZIP archive. The state is \<open>uploaded_photos\<close>,
  \<open>limit_reached\<close> and the writes issued so far.
\<close>

fun zip_loop ::
  "nat \<Rightarrow> nat \<Rightarrow> string \<Rightarrow> zip_entry list \<Rightarrow> effect list \<times> photo list \<times> bool
     \<Rightarrow> effect list \<times> photo list \<times> bool" where
  "zip_loop limit pc eid [] acc = acc"
| "zip_loop limit pc eid (ZipEntry skip img # rest) (es, uploaded_photos, limit_reached) =
     (if would_exceed_limit limit pc uploaded_photos then (es, uploaded_photos, True)
      else if skip then zip_loop limit pc eid rest (es, uploaded_photos, limit_reached)
      else
        (case process_image_upload eid img of
           (_, None) \<Rightarrow> zip_loop limit pc eid rest (es, uploaded_photos, limit_reached)
         | (es', Some p) \<Rightarrow>
             zip_loop limit pc eid rest (es @ es', uploaded_photos @ [p], limit_reached)))"

fun files_loop ::
  "nat \<Rightarrow> nat \<Rightarrow> string \<Rightarrow> upload_file list \<Rightarrow> effect list \<times> photo list \<times> bool
     \<Rightarrow> effect list \<times> photo list \<times> bool" where
  "files_loop limit pc eid [] acc = acc"
| "files_loop limit pc eid (ZipArchive entries # files) acc =
     files_loop limit pc eid files (zip_loop limit pc eid entries acc)"
| "files_loop limit pc eid (BadZipFile # files) acc = files_loop limit pc eid files acc"
| "files_loop limit pc eid (RegularFile img # files) (es, uploaded_photos, limit_reached) =
     (if would_exceed_limit limit pc uploaded_photos
      then files_loop limit pc eid files (es, uploaded_photos, True)
      else
        (case process_image_upload eid img of
           (_, None) \<Rightarrow> files_loop limit pc eid files (es, uploaded_photos, limit_reached)
         | (es', Some p) \<Rightarrow>
             files_loop limit pc eid files (es @ es', uploaded_photos @ [p], limit_reached)))"

text \<open>
  \<open>api_upload_photos\<close>. The second argument is the \<open>photo_count\<close> of the event as
  \<open>get_event\<close> returned it, \<open>None\<close> for an unknown event.
\<close>

definition api_upload_photos ::
  "nat \<Rightarrow> nat option \<Rightarrow> string \<Rightarrow> upload_file list \<Rightarrow> effect list \<times> http_result" where
  "api_upload_photos FREE_TIER_PHOTO_LIMIT event eid files =
     (case event of
        None \<Rightarrow> ([], HTTP_404)
      | Some photo_count \<Rightarrow>
          if FREE_TIER_PHOTO_LIMIT \<le> photo_count then ([], HTTP_402)
          else
            (case files_loop FREE_TIER_PHOTO_LIMIT photo_count eid files
                    ([ResetProgress eid], [], False) of
               (es, uploaded_photos, limit_reached) \<Rightarrow>
                 (es @ (if uploaded_photos \<noteq> []
                        then [SetTotal eid (int (length uploaded_photos))] else []),
                  if limit_reached \<and> uploaded_photos = [] then HTTP_402
                  else HTTP_200 (length uploaded_photos))))"

text \<open>
  A batch from upload to the end of processing: the upload request runs, then every
  submitted photo is processed by the configured executor, each job in the environment
  paired with it.
\<close>

fun submitted :: "effect list \<Rightarrow> (string \<times> string) list" where
  "submitted [] = []"
| "submitted (SubmitPhoto pid eid # es) = (pid, eid) # submitted es"
| "submitted (_ # es) = submitted es"

fun run_jobs ::
  "(job_env \<Rightarrow> system \<Rightarrow> string \<Rightarrow> string \<Rightarrow> effect list)
     \<Rightarrow> ((string \<times> string) \<times> job_env) list \<Rightarrow> system \<Rightarrow> system" where
  "run_jobs ex [] s = s"
| "run_jobs ex (((pid, eid), env) # jobs) s = run_jobs ex jobs (run (ex env s pid eid) s)"

definition process_batch ::
  "bool \<Rightarrow> nat \<Rightarrow> nat option \<Rightarrow> string \<Rightarrow> upload_file list \<Rightarrow> job_env list \<Rightarrow> system \<Rightarrow> system" where
  "process_batch USE_REDIS limit event eid files envs s =
     (let es = fst (api_upload_photos limit event eid files)
      in run_jobs (executor USE_REDIS) (zip (submitted es) envs) (run es s))"

section \<open>Automatic retry sweep (tasks\_auto\_retry.py)\<close>

definition MAX_RETRIES :: int where
  "MAX_RETRIES = 3"

definition RETRY_DELAYS :: "int list" where
  "RETRY_DELAYS = [300, 900, 3600]"

text \<open>Python list indexing: a negative index counts from the end, a miss raises.\<close>

definition py_index :: "'a list \<Rightarrow> int \<Rightarrow> 'a option" where
  "py_index xs i =
     (let n = int (length xs); j = (if i < 0 then n + i else i)
      in if 0 \<le> j \<and> j < n then Some (xs ! nat j) else None)"

text \<open>
  What the sweep meets outside the program: whether \<open>apply_async\<close> raises for a photo,
  and whether the \<open>UPDATE photos SET retry_count\<close> that follows it raises.
\<close>

record retry_env =
  apply_async_raises :: "string \<Rightarrow> bool"
  db_update_raises :: "string \<Rightarrow> bool"

record retried_entry =
  re_photo_id :: string
  re_retry_count :: int
  re_delay_seconds :: int

text \<open>
  The state of the sweep: the jobs handed to the broker (photo id, event id, countdown),
  the \<open>retried\<close> and \<open>skipped\<close> lists, the committed \<open>retry_count\<close> updates, and
  whether the loop was left by an uncaught \<open>IndexError\<close>.
\<close>

record sweep =
  scheduled :: "(string \<times> string \<times> int) list"
  retried :: "retried_entry list"
  skipped :: "string list"
  db_updates :: "(string \<times> int) list"
  index_error :: bool

fun retry_loop :: "retry_env \<Rightarrow> string \<Rightarrow> photo list \<Rightarrow> sweep \<Rightarrow> sweep" where
  "retry_loop env eid [] sw = sw"
| "retry_loop env eid (p # failed_photos) sw =
     (let rc = (case retry_count p of None \<Rightarrow> 0 | Some n \<Rightarrow> n)
      in if MAX_RETRIES \<le> rc
         then retry_loop env eid failed_photos (sw \<lparr>skipped := skipped sw @ [row_id p]\<rparr>)
         else
           (case py_index RETRY_DELAYS (min rc (int (length RETRY_DELAYS) - 1)) of
              None \<Rightarrow> sw \<lparr>index_error := True\<rparr>
            | Some delay \<Rightarrow>
                if apply_async_raises env (row_id p) then retry_loop env eid failed_photos sw
                else
                  (let sw1 = sw \<lparr>scheduled := scheduled sw @ [(row_id p, eid, delay)],
                                 retried := retried sw @
                                   [\<lparr>re_photo_id = row_id p, re_retry_count = rc + 1,
                                     re_delay_seconds = delay\<rparr>]\<rparr>
                   in if db_update_raises env (row_id p)
                      then retry_loop env eid failed_photos sw1
                      else retry_loop env eid failed_photos
                             (sw1 \<lparr>db_updates := db_updates sw1 @ [(row_id p, rc + 1)]\<rparr>))))"


section \<open>Predicates used in the statements\<close>



text \<open>
  The test of line 45 of tasks\_auto\_retry.py on a row, and the photo ids a sweep has
  scheduled, reported as retried or updated.
\<close>

definition exhausted :: "photo \<Rightarrow> bool" where
  "exhausted p = (MAX_RETRIES \<le> (case retry_count p of None \<Rightarrow> 0 | Some n \<Rightarrow> n))"

definition touched :: "sweep \<Rightarrow> string set" where
  "touched sw = fst ` set (scheduled sw) \<union> re_photo_id ` set (retried sw)
                  \<union> fst ` set (db_updates sw)"

text \<open>
  The photos of an event counted as finished, and the invariant of the upload loops: the
  photos submitted so far are the uploaded ones, all of them have a row, and no photo is
  counted as finished yet.
\<close>

definition finished :: "system \<Rightarrow> string \<Rightarrow> int" where
  "finished s eid = progress s eid completed + progress s eid failed"

definition upload_inv :: "string \<Rightarrow> effect list \<times> photo list \<times> bool \<Rightarrow> bool" where
  "upload_inv eid acc =
     (case acc of (es, uploaded_photos, limit_reached) \<Rightarrow>
        submitted es = map (\<lambda>p. (row_id p, eid)) uploaded_photos \<and>
        (\<forall>s. finished (run es s) eid = 0 \<and> progress (run es s) eid total = 0 \<and>
             row_id ` set uploaded_photos \<subseteq> dom (photos (run es s))))"

section \<open>Properties of the similarity matcher\<close>

subsection \<open>Cosine similarity and rounding\<close>












subsection \<open>The matching loop\<close>





lemma match_loop_distinct:
  "match_loop selfie_vec selfie_norm threshold stored matches seen = Inr r \<Longrightarrow>
   distinct (map match_photo_id matches) \<Longrightarrow>
   match_photo_id ` set matches \<subseteq> seen \<Longrightarrow>
   distinct (map match_photo_id r)"
proof (induction stored arbitrary: matches seen)
  case Nil
  then show ?case by simp
next
  case (Cons s rest)
  show ?case
  proof (cases "np_norm (embedding s) = 0")
    case True
    with Cons.prems(1) have "match_loop selfie_vec selfie_norm threshold rest matches seen = Inr r"
      by simp
    from Cons.IH [OF this Cons.prems(2,3)] show ?thesis .
  next
    case nz: False
    from nz Cons.prems(1) obtain d c where
      d: "np_dot selfie_vec (embedding s) = Inr d" and
      c: "np_divide d (selfie_norm * np_norm (embedding s)) = Inr c"
      by (auto simp: Let_def split: sum.splits)
    show ?thesis
    proof (cases "threshold \<le> c \<and> photo_id s \<notin> seen")
      case True
      let ?m = "\<lparr>match_photo_id = photo_id s, similarity = py_round4 c\<rparr>"
      from True nz d c Cons.prems(1)
      have run: "match_loop selfie_vec selfie_norm threshold rest
                   (matches @ [?m]) (insert (photo_id s) seen) = Inr r"
        by (simp add: Let_def)
      have "photo_id s \<notin> match_photo_id ` set matches" using True Cons.prems(3) by blast
      then have dist: "distinct (map match_photo_id (matches @ [?m]))"
        using Cons.prems(2) by simp
      have sub: "match_photo_id ` set (matches @ [?m]) \<subseteq> insert (photo_id s) seen"
        using Cons.prems(3) by auto
      from Cons.IH [OF run dist sub] show ?thesis .
    next
      case False
      with nz d c Cons.prems(1)
      have "match_loop selfie_vec selfie_norm threshold rest matches seen = Inr r"
        by (auto simp: Let_def)
      from Cons.IH [OF this Cons.prems(2,3)] show ?thesis .
    qed
  qed
qed


lemma distinct_map_insort_key:
  "distinct (map g (insort_key k x xs)) \<longleftrightarrow> g x \<notin> g ` set xs \<and> distinct (map g xs)"
  by (induction xs) (auto simp: set_insort_key)

lemma distinct_map_sort_key:
  "distinct (map g (sort_key k xs)) \<longleftrightarrow> distinct (map g xs)"
  by (induction xs) (simp_all add: distinct_map_insort_key)

lemma sort_descending_distinct:
  "distinct (map match_photo_id ms) \<Longrightarrow> distinct (map match_photo_id (sort_descending ms))"
  by (simp add: sort_descending_def distinct_map_sort_key)

lemma sort_descending_sorted:
  "sorted_wrt (\<lambda>x y. similarity y \<le> similarity x) (sort_descending ms)"
proof -
  have "sorted (map (\<lambda>x. - similarity x) (sort_descending ms))"
    by (simp add: sort_descending_def)
  then show ?thesis by (simp add: sorted_map sorted_wrt_iff_nth_less)
qed


lemma find_matches_distinct_photo_ids:
  assumes "find_matches d q st th = Inr ms"
  shows "distinct (map match_photo_id ms)"
proof (cases "np_norm q = 0")
  case True
  with assms show ?thesis by (simp add: find_matches_def)
next
  case False
  with assms obtain t r where
    loop: "match_loop q (np_norm q) t st [] {} = Inr r" and ms: "ms = sort_descending r"
    by (auto simp: find_matches_def split: sum.splits)
  have "distinct (map match_photo_id r)"
    using loop by (rule match_loop_distinct) simp_all
  with ms show ?thesis by (simp add: sort_descending_distinct)
qed

subsection \<open>Concrete vectors\<close>

lemma sqrt_25: "sqrt 25 = 5"
  using real_sqrt_abs [of 5] by simp

lemma sqrt_169: "sqrt 169 = 13"
  using real_sqrt_abs [of 13] by simp

lemmas find_matches_eval =
  find_matches_def np_norm_def np_dot_def np_divide_def sort_descending_def py_round4_def
  round_half_even_def cosine_similarity_def effective_threshold_def Let_def sqrt_25 sqrt_169

subsection \<open>Claims about \<open>find_matches\<close>\<close>

text \<open>
  C1. Claim: \<open>find_matches\<close> returns at most one result per photo id, and a photo
  with several embeddings that pass the threshold is reported with the highest of their
  similarities. The first half holds (\<open>find_matches_distinct_photo_ids\<close>). The second
  does not: the loop keeps the first embedding of a photo that passes the threshold and
  sorts afterwards. Here photo \<open>p1\<close> has the embeddings \<open>[3, 4]\<close> (cosine 0.6) and
  \<open>[1, 0]\<close> (cosine 1) against the query \<open>[1, 0]\<close>; both pass the threshold 0.5, and
  the result carries 0.6.
\<close>

theorem find_matches_keeps_first_embedding:
  "find_matches 0.4 [1, 0]
     [\<lparr>embedding = [3, 4], photo_id = ''p1''\<rparr>, \<lparr>embedding = [1, 0], photo_id = ''p1''\<rparr>]
     (Some 0.5)
   = Inr [\<lparr>match_photo_id = ''p1'', similarity = 0.6\<rparr>]
   \<and> cosine_similarity [1, 0] [3, 4] = 0.6
   \<and> cosine_similarity [1, 0] [1, 0] = 1"
  by (simp add: find_matches_eval)






text \<open>
  C9. The list \<open>find_matches\<close> returns is sorted by similarity, non-increasing.
\<close>

theorem find_matches_sorted:
  assumes "find_matches d q st th = Inr ms"
  shows "sorted_wrt (\<lambda>x y. similarity y \<le> similarity x) ms"
proof (cases "np_norm q = 0")
  case True
  with assms show ?thesis by (simp add: find_matches_def)
next
  case False
  with assms obtain r where "ms = sort_descending r"
    by (auto simp: find_matches_def split: sum.splits)
  then show ?thesis by (simp add: sort_descending_sorted)
qed

theorem find_matches_sorted_witness:
  "find_matches 0.4 [1, 0]
     [\<lparr>embedding = [3, 4], photo_id = ''p1''\<rparr>, \<lparr>embedding = [1, 0], photo_id = ''p2''\<rparr>]
     (Some 0.5)
   = Inr [\<lparr>match_photo_id = ''p2'', similarity = 1\<rparr>,
          \<lparr>match_photo_id = ''p1'', similarity = 0.6\<rparr>]
   \<and> sorted_wrt (\<lambda>x y. similarity y \<le> similarity x)
        [\<lparr>match_photo_id = ''p2'', similarity = 1\<rparr>,
         \<lparr>match_photo_id = ''p1'', similarity = 0.6\<rparr>]"
proof -
  have run: "find_matches 0.4 [1, 0]
     [\<lparr>embedding = [3, 4], photo_id = ''p1''\<rparr>, \<lparr>embedding = [1, 0], photo_id = ''p2''\<rparr>]
     (Some 0.5)
   = Inr [\<lparr>match_photo_id = ''p2'', similarity = 1\<rparr>,
          \<lparr>match_photo_id = ''p1'', similarity = 0.6\<rparr>]"
    by (simp add: find_matches_eval)
  from find_matches_sorted [OF run] run show ?thesis by blast
qed



section \<open>Properties of the embedding extractor\<close>





section \<open>Properties of the ingestion pipeline\<close>

lemmas pipeline_eval =
  Let_def process_batch_def api_upload_photos_def would_exceed_limit_def
  process_image_upload_def create_photo_def executor_def celery_process_photo_def
  tasks_process_photo_def worker_process_photo_def process_body_def cleanup_def on_success_def
  detect_and_encode_def save_effect_def update_progress_def reset_progress_def get_progress_def
  empty_progress_store_def except_handler_def update_photo_status_def status_history_def














text \<open>
  C8. A photo that is found, whose image is resolved and exists and for which
  \<open>detect_and_encode\<close> returns no face ends with status \<open>done\<close> and face count 0
  under both executors, and the job never writes the status \<open>error\<close>.
\<close>

theorem zero_faces_photo_is_done:
  assumes ex: "ex = worker_process_photo \<or> ex = celery_process_photo"
      and photo: "photos s pid = Some p"
      and resolve: "resolve_image env = Some c"
      and exists: "image_exists env"
      and zero: "detect_and_encode (represent env) = []"
  shows "(\<exists>p'. photos (run (ex env s pid eid) s) pid = Some p' \<and>
                status p' = ''done'' \<and> face_count p' = 0)
       \<and> (\<forall>e \<in> set (ex env s pid eid). \<forall>q fc ms. e \<noteq> UpdatePhotoStatus q ''error'' fc ms)"
proof -
  have body: "process_body on_done env pid eid =
        [UpdateProgress eid processing, UpdatePhotoStatus pid ''done'' 0 (Some (elapsed_ms env))]
        @ on_done @ cleanup c" for on_done
    using resolve exists zero by (simp add: process_body_def split: option.splits)
  have tail: "photos (run (on_done @ cleanup c @ more) s') = photos s'"
    if "on_done = [] \<or> on_done = [UpdateProgress eid completed]"
       "more = [] \<or> more = [UpdateProgress eid completed]" for on_done more s'
    using that by (auto simp: cleanup_def)
  from ex show ?thesis
  proof
    assume w: "ex = worker_process_photo"
    have es: "ex env s pid eid =
        [UpdateProgress eid processing, UpdatePhotoStatus pid ''done'' 0 (Some (elapsed_ms env))]
        @ [UpdateProgress eid completed] @ cleanup c @ []"
      using w photo body by (simp add: worker_process_photo_def)
    show ?thesis
      unfolding es using photo tail [of "[UpdateProgress eid completed]" "[]"]
      by (auto simp: update_photo_status_def cleanup_def)
  next
    assume ce: "ex = celery_process_photo"
    have es: "ex env s pid eid =
        [UpdateProgress eid processing, UpdatePhotoStatus pid ''done'' 0 (Some (elapsed_ms env))]
        @ [] @ cleanup c @ on_success [pid, eid] Map.empty"
      using ce photo body by (simp add: celery_process_photo_def tasks_process_photo_def)
    have os: "on_success [pid, eid] Map.empty = [] \<or>
              on_success [pid, eid] Map.empty = [UpdateProgress eid completed]"
      by (simp add: on_success_def)
    show ?thesis
      unfolding es using photo tail [of "[]" "on_success [pid, eid] Map.empty"] os
      by (auto simp: update_photo_status_def cleanup_def)
  qed
qed

theorem zero_faces_photo_is_done_witness:
  "(celery_process_photo = worker_process_photo \<or> celery_process_photo = celery_process_photo)
   \<and> resolve_image \<lparr>resolve_image = Some False, image_exists = True, represent = Returned [],
         save_raises_at = None, elapsed_ms = 12\<rparr> = Some False
   \<and> image_exists \<lparr>resolve_image = Some False, image_exists = True, represent = Returned [],
         save_raises_at = None, elapsed_ms = 12\<rparr>
   \<and> detect_and_encode (Returned []) = []
   \<and> (\<exists>p'. photos (run (celery_process_photo
        \<lparr>resolve_image = Some False, image_exists = True, represent = Returned [],
         save_raises_at = None, elapsed_ms = 12\<rparr>
        \<lparr>photos = [''p1'' \<mapsto> \<lparr>row_id = ''p1'', event_id = ''e1'', filename = ''a.jpg'',
                                status = ''pending'', face_count = 0,
                                processing_time_ms = None, retry_count = None\<rparr>],
         face_embeddings = [], progress = empty_progress_store\<rparr>
        ''p1'' ''e1'')
        \<lparr>photos = [''p1'' \<mapsto> \<lparr>row_id = ''p1'', event_id = ''e1'', filename = ''a.jpg'',
                                status = ''pending'', face_count = 0,
                                processing_time_ms = None, retry_count = None\<rparr>],
         face_embeddings = [], progress = empty_progress_store\<rparr>) ''p1'' = Some p'
        \<and> status p' = ''done'' \<and> face_count p' = 0)"
proof -
  let ?env = "\<lparr>resolve_image = Some False, image_exists = True, represent = Returned [],
         save_raises_at = None, elapsed_ms = 12\<rparr>"
  let ?p = "\<lparr>row_id = ''p1'', event_id = ''e1'', filename = ''a.jpg'',
                                status = ''pending'', face_count = 0,
                                processing_time_ms = None, retry_count = None\<rparr>"
  let ?s = "\<lparr>photos = [''p1'' \<mapsto> ?p], face_embeddings = [], progress = empty_progress_store\<rparr>"
  have ex: "celery_process_photo = worker_process_photo \<or> celery_process_photo = celery_process_photo"
    by simp
  have photo: "photos ?s ''p1'' = Some ?p" by simp
  have resolve: "resolve_image ?env = Some False" by simp
  have exists: "image_exists ?env" by simp
  have zero: "detect_and_encode (represent ?env) = []" by (simp add: detect_and_encode_def)
  from zero_faces_photo_is_done [OF ex photo resolve exists zero, of "''e1''"] zero
  show ?thesis by simp
qed

section \<open>Properties of the progress counters\<close>

lemma run_append: "run (es @ es') s = run es' (run es s)"
  by (induction es arbitrary: s) simp_all

lemma run_saves:
  "progress (run (map (save_effect pid eid) fs) s) = progress s"
  "photos (run (map (save_effect pid eid) fs) s) = photos s"
  by (induction fs arbitrary: s) (simp_all add: save_effect_def)

lemma run_cleanup:
  "progress (run (cleanup c) s) = progress s" "photos (run (cleanup c) s) = photos s"
  by (simp_all add: cleanup_def)

lemma dom_update_photo_status: "dom (update_photo_status pid st fc ms tbl) = dom tbl"
  by (auto simp: update_photo_status_def split: option.splits)

lemma worker_job_accounts_once:
  assumes "photos s pid = Some p"
  shows "finished (run (worker_process_photo env s pid eid) s) eid = finished s eid + 1"
    and "progress (run (worker_process_photo env s pid eid) s) eid total = progress s eid total"
    and "dom (photos (run (worker_process_photo env s pid eid) s)) = dom (photos s)"
  using assms
  by (auto simp: worker_process_photo_def process_body_def except_handler_def Let_def finished_def
        run_append run_saves run_cleanup update_progress_def dom_update_photo_status
        split: option.splits)

lemma submitted_append: "submitted (es @ es') = submitted es @ submitted es'"
  by (induction es rule: submitted.induct) simp_all

lemma upload_inv_flag: "upload_inv eid (es, ups, lr) \<Longrightarrow> upload_inv eid (es, ups, lr')"
  by (simp add: upload_inv_def)

lemma upload_inv_image:
  assumes "upload_inv eid (es, ups, lr)" and "process_image_upload eid img = (es', Some p)"
  shows "upload_inv eid (es @ es', ups @ [p], lr)"
proof -
  from assms(2) have es': "es' = [CreatePhoto p, SubmitPhoto (row_id p) eid, UpdateProgress eid uploaded]"
    by (auto simp: process_image_upload_def Let_def split: if_splits)
  show ?thesis
    using assms(1) unfolding upload_inv_def es'
    by (auto simp: submitted_append run_append finished_def update_progress_def)
qed

lemma zip_loop_inv:
  "upload_inv eid acc \<Longrightarrow> upload_inv eid (zip_loop limit pc eid entries acc)"
proof (induction limit pc eid entries acc rule: zip_loop.induct)
  case (1 limit pc eid acc)
  then show ?case by simp
next
  case (2 limit pc eid skip img rest es uploaded_photos limit_reached)
  show ?case
  proof (cases "would_exceed_limit limit pc uploaded_photos")
    case True
    then show ?thesis using "2.prems" upload_inv_flag by simp
  next
    case no: False
    show ?thesis
    proof (cases skip)
      case True
      with no show ?thesis using "2.IH"(1) "2.prems" by simp
    next
      case ns: False
      show ?thesis
      proof (cases "process_image_upload eid img")
        case (Pair es' r)
        show ?thesis
        proof (cases r)
          case None
          with no ns Pair show ?thesis using "2.IH"(2) "2.prems" by simp
        next
          case (Some p)
          with Pair have "upload_inv eid (es @ es', uploaded_photos @ [p], limit_reached)"
            using upload_inv_image "2.prems" by blast
          with no ns Pair Some show ?thesis using "2.IH"(3) by simp
        qed
      qed
    qed
  qed
qed

lemma files_loop_inv:
  "upload_inv eid acc \<Longrightarrow> upload_inv eid (files_loop limit pc eid files acc)"
proof (induction limit pc eid files acc rule: files_loop.induct)
  case (1 limit pc eid acc)
  then show ?case by simp
next
  case (2 limit pc eid entries files acc)
  then show ?case by (simp add: zip_loop_inv)
next
  case (3 limit pc eid files acc)
  then show ?case by simp
next
  case (4 limit pc eid img files es uploaded_photos limit_reached)
  show ?case
  proof (cases "would_exceed_limit limit pc uploaded_photos")
    case True
    then show ?thesis using "4.IH"(1) "4.prems" upload_inv_flag by simp
  next
    case no: False
    show ?thesis
    proof (cases "process_image_upload eid img")
      case (Pair es' r)
      show ?thesis
      proof (cases r)
        case None
        with no Pair show ?thesis using "4.IH"(2) "4.prems" by simp
      next
        case (Some p)
        with Pair have "upload_inv eid (es @ es', uploaded_photos @ [p], limit_reached)"
          using upload_inv_image "4.prems" by blast
        with no Pair Some show ?thesis using "4.IH"(3) by simp
      qed
    qed
  qed
qed

lemma upload_inv_init: "upload_inv eid ([ResetProgress eid], [], False)"
  by (simp add: upload_inv_def finished_def reset_progress_def)

lemma api_upload_photos_accepted:
  assumes "pc < limit"
  shows "finished (run (fst (api_upload_photos limit (Some pc) eid files)) s) eid = 0"
    and "progress (run (fst (api_upload_photos limit (Some pc) eid files)) s) eid total
           = int (length (submitted (fst (api_upload_photos limit (Some pc) eid files))))"
    and "\<forall>(pid, e) \<in> set (submitted (fst (api_upload_photos limit (Some pc) eid files))).
           e = eid \<and> pid \<in> dom (photos (run (fst (api_upload_photos limit (Some pc) eid files)) s))"
proof -
  obtain es ups lr where
    loop: "files_loop limit pc eid files ([ResetProgress eid], [], False) = (es, ups, lr)"
    by (cases "files_loop limit pc eid files ([ResetProgress eid], [], False)") auto
  have inv: "upload_inv eid (es, ups, lr)"
    using files_loop_inv [OF upload_inv_init, of eid limit pc files] loop by simp
  have fst: "fst (api_upload_photos limit (Some pc) eid files)
               = es @ (if ups \<noteq> [] then [SetTotal eid (int (length ups))] else [])"
    using assms loop by (simp add: api_upload_photos_def)
  from inv have sub: "submitted es = map (\<lambda>p. (row_id p, eid)) ups"
    and fin: "finished (run es s) eid = 0" and tot: "progress (run es s) eid total = 0"
    and dom: "row_id ` set ups \<subseteq> dom (photos (run es s))"
    by (simp_all add: upload_inv_def)
  show "finished (run (fst (api_upload_photos limit (Some pc) eid files)) s) eid = 0"
    unfolding fst using fin by (simp add: run_append finished_def)
  show "progress (run (fst (api_upload_photos limit (Some pc) eid files)) s) eid total
           = int (length (submitted (fst (api_upload_photos limit (Some pc) eid files))))"
    unfolding fst using tot sub by (simp add: run_append submitted_append)
  show "\<forall>(pid, e) \<in> set (submitted (fst (api_upload_photos limit (Some pc) eid files))).
           e = eid \<and> pid \<in> dom (photos (run (fst (api_upload_photos limit (Some pc) eid files)) s))"
    unfolding fst using sub dom by (auto simp: run_append submitted_append)
qed

lemma run_jobs_worker:
  assumes "\<forall>((pid, e), env) \<in> set jobs. e = eid \<and> pid \<in> dom (photos s)"
  shows "finished (run_jobs worker_process_photo jobs s) eid = finished s eid + int (length jobs)
       \<and> progress (run_jobs worker_process_photo jobs s) eid total = progress s eid total"
  using assms
proof (induction jobs arbitrary: s)
  case Nil
  then show ?case by simp
next
  case (Cons job jobs)
  obtain pid e env where job: "job = ((pid, e), env)" by (cases job) auto
  with Cons.prems obtain p where e: "e = eid" and p: "photos s pid = Some p" by auto
  let ?s' = "run (worker_process_photo env s pid eid) s"
  note one = worker_job_accounts_once [OF p, of env eid]
  have "\<forall>((pid, e), env) \<in> set jobs. e = eid \<and> pid \<in> dom (photos ?s')"
    using Cons.prems one(3) by auto
  from Cons.IH [OF this] one(1,2) show ?case by (simp add: job e)
qed

lemma thread_pool_batch_accounts_every_photo:
  assumes accepted: "pc < limit"
      and all_run: "length envs = length (submitted (fst (api_upload_photos limit (Some pc) eid files)))"
  shows "progress (process_batch False limit (Some pc) eid files envs s) eid completed
           + progress (process_batch False limit (Some pc) eid files envs s) eid failed
         = progress (process_batch False limit (Some pc) eid files envs s) eid total"
proof -
  let ?es = "fst (api_upload_photos limit (Some pc) eid files)"
  let ?jobs = "zip (submitted ?es) envs"
  note up = api_upload_photos_accepted [OF accepted, of eid files s]
  have "\<forall>((pid, e), env) \<in> set ?jobs. e = eid \<and> pid \<in> dom (photos (run ?es s))"
    using up(3) by (auto dest!: set_zip_leftD)
  from run_jobs_worker [OF this] up(1,2) all_run
  show ?thesis
    by (simp add: process_batch_def executor_def Let_def finished_def)
qed

text \<open>
  C5. Claim: once every job of an upload batch has finished,
  \<open>completed + failed = total\<close>, and no counter is incremented twice for one photo
  outcome. The thread-pool executor satisfies the equation
  (\<open>thread_pool_batch_accounts_every_photo\<close>). The Celery executor does not: the task
  function counts a photo whose image file is missing as failed and returns a dict, and
  \<open>on_success\<close> then counts the same photo as completed. For a batch of one such photo
  the counters uploaded, processing, completed, failed, total all end at 1.
\<close>

theorem celery_counts_failed_photo_twice:
  "map (get_progress
          (progress
             (process_batch True 500 (Some 0) ''e1''
                [RegularFile \<lparr>valid = True, new_id = ''p1'', stored_name = ''a.jpg''\<rparr>]
                [\<lparr>resolve_image = Some False, image_exists = False, represent = Returned [],
                  save_raises_at = None, elapsed_ms = 12\<rparr>]
                \<lparr>photos = Map.empty, face_embeddings = [], progress = empty_progress_store\<rparr>))
          ''e1'')
     [uploaded, processing, completed, failed, total]
   = [1, 1, 1, 1, 1]"
  by (simp add: pipeline_eval)

section \<open>Properties of the retry sweep\<close>

lemma retry_loop_step:
  "\<exists>sw'. (retry_loop env eid (p # ps) sw = retry_loop env eid ps sw'
            \<or> retry_loop env eid (p # ps) sw = sw' \<and> index_error sw')
         \<and> touched sw' \<subseteq> touched sw \<union> (if exhausted p then {} else {row_id p})
         \<and> set (skipped sw') = set (skipped sw) \<union> (if exhausted p then {row_id p} else {})
         \<and> (index_error sw \<longrightarrow> index_error sw')"
proof (cases "exhausted p")
  case True
  then show ?thesis
    by (intro exI [of _ "sw \<lparr>skipped := skipped sw @ [row_id p]\<rparr>"])
       (simp add: exhausted_def touched_def Let_def)
next
  case ne: False
  let ?rc = "case retry_count p of None \<Rightarrow> 0 | Some n \<Rightarrow> n"
  show ?thesis
  proof (cases "py_index RETRY_DELAYS (min ?rc (int (length RETRY_DELAYS) - 1))")
    case None
    with ne show ?thesis
      by (intro exI [of _ "sw \<lparr>index_error := True\<rparr>"])
         (auto simp: exhausted_def touched_def Let_def)
  next
    case (Some delay)
    let ?sw1 = "sw \<lparr>scheduled := scheduled sw @ [(row_id p, eid, delay)],
                     retried := retried sw @
                       [\<lparr>re_photo_id = row_id p, re_retry_count = ?rc + 1,
                         re_delay_seconds = delay\<rparr>]\<rparr>"
    show ?thesis
    proof (cases "apply_async_raises env (row_id p)")
      case True
      with ne Some show ?thesis
        by (intro exI [of _ sw]) (auto simp: exhausted_def touched_def Let_def)
    next
      case sched: False
      show ?thesis
      proof (cases "db_update_raises env (row_id p)")
        case True
        with ne Some sched show ?thesis
          by (intro exI [of _ ?sw1]) (auto simp: exhausted_def touched_def Let_def)
      next
        case False
        with ne Some sched show ?thesis
          by (intro exI [of _ "?sw1 \<lparr>db_updates := db_updates ?sw1 @ [(row_id p, ?rc + 1)]\<rparr>"])
             (auto simp: exhausted_def touched_def Let_def)
      qed
    qed
  qed
qed


lemma retry_loop_index_error:
  "index_error sw \<Longrightarrow> index_error (retry_loop env eid ps sw)"
proof (induction ps arbitrary: sw)
  case Nil
  then show ?case by simp
next
  case (Cons p ps)
  from retry_loop_step [of env eid p ps sw] Cons.prems obtain sw' where
    "retry_loop env eid (p # ps) sw = retry_loop env eid ps sw'
       \<or> retry_loop env eid (p # ps) sw = sw' \<and> index_error sw'"
    "index_error sw'"
    by blast
  then show ?case using Cons.IH by auto
qed




end
